theory Spec2Isabelle
  imports Main "HOL-Library.Multiset" "HOL-Library.Sublist"
begin

section \<open>Strings and errors\<close>

text \<open>
  A Go string is a sequence of bytes, modelled as \<open>string\<close> (a list of 8-bit
  characters); \<open>==\<close> on Go strings is equality of the byte sequences. A Go
  \<open>error\<close> is modelled by its message; a nil error is \<open>None\<close>.
\<close>

type_synonym error = string

text \<open>
  \<open>strings.TrimSpace\<close> belongs to the Go standard library, not to the repository.
  It removes all leading and then all trailing white space, as \<open>unicode.IsSpace\<close>
  defines it: the six ASCII characters tab, line feed, vertical tab, form feed,
  carriage return and space, the Latin-1 code points U+0085 and U+00A0, and the code
  points U+1680, U+2000 to U+200A, U+2028, U+2029, U+202F, U+205F and U+3000. The
  model works on the bytes: \<open>space_runes\<close> lists the UTF-8 encodings of these code
  points.
\<close>

definition space_runes :: "string list" where
  "space_runes =
     [[CHR 0x09], [CHR 0x0A], [CHR 0x0B], [CHR 0x0C], [CHR 0x0D], [CHR 0x20],
      [CHR 0xC2, CHR 0x85], [CHR 0xC2, CHR 0xA0],
      [CHR 0xE1, CHR 0x9A, CHR 0x80],
      [CHR 0xE2, CHR 0x80, CHR 0x80], [CHR 0xE2, CHR 0x80, CHR 0x81],
      [CHR 0xE2, CHR 0x80, CHR 0x82], [CHR 0xE2, CHR 0x80, CHR 0x83],
      [CHR 0xE2, CHR 0x80, CHR 0x84], [CHR 0xE2, CHR 0x80, CHR 0x85],
      [CHR 0xE2, CHR 0x80, CHR 0x86], [CHR 0xE2, CHR 0x80, CHR 0x87],
      [CHR 0xE2, CHR 0x80, CHR 0x88], [CHR 0xE2, CHR 0x80, CHR 0x89],
      [CHR 0xE2, CHR 0x80, CHR 0x8A],
      [CHR 0xE2, CHR 0x80, CHR 0xA8], [CHR 0xE2, CHR 0x80, CHR 0xA9],
      [CHR 0xE2, CHR 0x80, CHR 0xAF],
      [CHR 0xE2, CHR 0x81, CHR 0x9F],
      [CHR 0xE3, CHR 0x80, CHR 0x80]]"

text \<open>The number of bytes of the pattern of \<open>pats\<close> that \<open>s\<close> starts with; 0 when
  it starts with none.\<close>

definition leading :: "string list \<Rightarrow> string \<Rightarrow> nat" where
  "leading pats s =
     (case find (\<lambda>p. p \<noteq> [] \<and> take (length p) s = p) pats of
        None \<Rightarrow> 0
      | Some p \<Rightarrow> length p)"

function strip_leading :: "string list \<Rightarrow> string \<Rightarrow> string" where
  "strip_leading pats s =
     (if leading pats s = 0 then s else strip_leading pats (drop (leading pats s) s))"
  by pat_completeness auto
termination
proof (relation "measure (\<lambda>(pats, s). length s)")
  show "wf (measure (\<lambda>(pats, s). length s))" by simp
next
  fix pats :: "string list" and s :: string
  assume "leading pats s \<noteq> 0"
  then obtain p where "find (\<lambda>p. p \<noteq> [] \<and> take (length p) s = p) pats = Some p"
    by (auto simp: leading_def split: option.splits)
  then have "p \<noteq> []" and "take (length p) s = p"
    by (auto simp: find_Some_iff)
  then have "s \<noteq> []" by auto
  with \<open>leading pats s \<noteq> 0\<close>
  show "((pats, drop (leading pats s) s), (pats, s)) \<in> measure (\<lambda>(pats, s). length s)"
    by simp
qed

declare strip_leading.simps [simp del]

definition TrimLeftSpace :: "string \<Rightarrow> string" where
  "TrimLeftSpace s = strip_leading space_runes s"

definition TrimRightSpace :: "string \<Rightarrow> string" where
  "TrimRightSpace s = rev (strip_leading (map rev space_runes) (rev s))"

definition TrimSpace :: "string \<Rightarrow> string" where
  "TrimSpace s = TrimRightSpace (TrimLeftSpace s)"

section \<open>fetchIP: one request to one service\<close>

text \<open>
  What the network does with the GET request of this run to a URL. Each constructor
  is one of the places where \<open>fetchIP\<close> can leave: building the request fails,
  \<open>http.DefaultClient.Do\<close> fails (no connection, or the deadline of the context
  passed), a response with a status code arrives and reading its body fails, or a
  response with a status code arrives and its body is read to the end. \<open>Do\<close>
  reports an error when the exchange fails, not for a status code, so a response
  of any status reaches the reading of the body; the context only decides when a
  request is given up, which the reply of the network stands for.
\<close>

datatype reply =
    NewRequestError error
  | DoError error
  | ReadAllError nat error
  | Response nat string

type_synonym network = "string \<Rightarrow> reply"

definition fetchIP :: "network \<Rightarrow> string \<Rightarrow> string \<times> error option" where
  "fetchIP net url =
     (case net url of
        NewRequestError e \<Rightarrow> ([], Some e)
      | DoError e \<Rightarrow> ([], Some e)
      | ReadAllError status e \<Rightarrow> ([], Some e)
      | Response status body \<Rightarrow>
          (let ip = TrimSpace body in
           if ip = [] then ([], Some (''received empty IP address from '' @ url))
           else (ip, None)))"

section \<open>Output and the structs of the provider's client\<close>

text \<open>
  The output of the program, in the order it is produced: each event is one call of
  a printing function with its format string and arguments, or one call of the DNS
  provider's client (declared below). Formatting itself is not modelled.
\<close>

datatype arg = S string | D int | V error

text \<open>
  The structs of the provider's client library are declared outside the repository.
  The records below carry the fields the program reads or sets; the fields of
  \<open>ListDNSRecordsParams\<close> and \<open>UpdateDNSRecordParams\<close> that the program does not set
  keep Go's zero value and are left out.
\<close>

datatype RouteLevel = AccountRouteLevel | ZoneRouteLevel | UserRouteLevel

record ResourceContainer =
  Level :: RouteLevel
  Identifier :: string

record DNSRecord =
  Type :: string
  Name :: string
  Content :: string
  TTL :: int
  Proxied :: "bool option"

record ResultInfo =
  Total :: int

record ListDNSRecordsParams =
  list_Name :: string
  list_Type :: string

record UpdateDNSRecordParams =
  upd_Type :: string
  upd_Name :: string
  upd_Content :: string
  upd_TTL :: int
  upd_Proxied :: "bool option"

datatype api_call =
    NewWithAPIToken string
  | ZoneIDByName string
  | ListDNSRecords ResourceContainer ListDNSRecordsParams
  | UpdateDNSRecord ResourceContainer UpdateDNSRecordParams

datatype event =
    Println "arg list"
  | Printf string "arg list"
  | LogPrintf string "arg list"
  | Call api_call

section \<open>getPublicIP: fan-out over the services and aggregation\<close>

definition services :: "string list" where
  "services = [''https://checkip.amazonaws.com'', ''https://icanhazip.com'']"

text \<open>The struct \<open>result\<close> that travels through the channel.\<close>

record result =
  res_ip :: string
  res_err :: "error option"

text \<open>
  The goroutines of \<open>getPublicIP\<close>. The dispatch loop starts one goroutine per
  service; each runs \<open>fetchIP\<close> on its own URL and sends the outcome to the channel
  \<open>results\<close>, whose buffer holds \<open>len(services)\<close> values. The collecting loop
  receives \<open>len(services)\<close> times and appends the address of every outcome without
  error to \<open>ips\<close>.

  The state of the machine after the dispatch loop: \<open>pending\<close> are the URLs of the
  goroutines that have not sent yet, \<open>results\<close> is the buffer of the channel (first
  in, first out), \<open>ips\<close> is the slice of the collecting loop and \<open>received\<close> counts
  its finished iterations. An execution is a list of actions: \<open>Send url\<close> is the
  goroutine of \<open>url\<close> finishing its fetch and sending, \<open>Recv\<close> is one iteration of the
  collecting loop. A send is not enabled while the buffer is full, a receive is not
  enabled while it is empty: there the Go runtime blocks the sender or the receiver.
  A goroutine that finishes before the dispatch loop does only fills the buffer, which
  the main goroutine does not look at before the collecting loop; so such a send is
  the same as one right after the dispatch loop.
\<close>

record gstate =
  pending :: "string list"
  results :: "result list"
  ips :: "string list"
  received :: nat

datatype action = Send string | Recv

definition spawn :: gstate where
  "spawn = \<lparr>pending = services, results = [], ips = [], received = 0\<rparr>"

fun step :: "network \<Rightarrow> action \<Rightarrow> gstate \<Rightarrow> gstate option" where
  "step net (Send service) s =
     (if service \<in> set (pending s) \<and> length (results s) < length services
      then (case fetchIP net service of
              (ip, err) \<Rightarrow>
                Some (s\<lparr>pending := remove1 service (pending s),
                        results := results s @ [\<lparr>res_ip = ip, res_err = err\<rparr>]\<rparr>))
      else None)"
| "step net Recv s =
     (if received s < length services
      then (case results s of
              [] \<Rightarrow> None
            | res # rest \<Rightarrow>
                Some (s\<lparr>results := rest,
                        ips := (if res_err res = None then ips s @ [res_ip res] else ips s),
                        received := Suc (received s)\<rparr>))
      else None)"

fun run :: "network \<Rightarrow> action list \<Rightarrow> gstate \<Rightarrow> gstate option" where
  "run net [] s = Some s"
| "run net (a # as) s = (case step net a s of None \<Rightarrow> None | Some s' \<Rightarrow> run net as s')"

text \<open>The part of \<open>getPublicIP\<close> after the collecting loop: the returned pair and
  what it logs.\<close>

definition decide :: "string list \<Rightarrow> (string \<times> error option) \<times> event list" where
  "decide ips' =
     (if length ips' = 0
      then (([], Some ''failed to fetch public IP from all services''), [])
      else ((ips' ! 0, None),
            (if length ips' > 1 \<and> ips' ! 0 \<noteq> ips' ! 1
             then [LogPrintf ''Warning: IP mismatch between services: %s vs %s. Using %s''
                     [S (ips' ! 0), S (ips' ! 1), S (ips' ! 0)]]
             else [])))"

text \<open>
  \<open>getPublicIP net sched\<close> is what \<open>getPublicIP\<close> returns and logs in the execution
  \<open>sched\<close>. It is \<open>None\<close> when \<open>sched\<close> is not an execution that reaches the return: an
  action of it is not enabled, or the collecting loop has not finished.
\<close>

definition getPublicIP :: "network \<Rightarrow> action list \<Rightarrow> ((string \<times> error option) \<times> event list) option" where
  "getPublicIP net sched =
     (case run net sched spawn of
        None \<Rightarrow> None
      | Some s \<Rightarrow> if received s = length services then Some (decide (ips s)) else None)"

text \<open>
  The executions in terms of the actions alone: every goroutine sends once, the
  collecting loop receives once per service, and no receive happens while the buffer
  is empty (\<open>buffered n sched\<close>: started with \<open>n\<close> values in the buffer, no receive of
  \<open>sched\<close> finds it empty). Lemma \<open>getPublicIP_eq\<close> below shows that these are
  exactly the lists of actions on which \<open>getPublicIP\<close> returns.
\<close>

fun sends :: "action list \<Rightarrow> string list" where
  "sends [] = []"
| "sends (Send service # as) = service # sends as"
| "sends (Recv # as) = sends as"

fun recvs :: "action list \<Rightarrow> nat" where
  "recvs [] = 0"
| "recvs (Send service # as) = recvs as"
| "recvs (Recv # as) = Suc (recvs as)"

fun buffered :: "nat \<Rightarrow> action list \<Rightarrow> bool" where
  "buffered n [] = True"
| "buffered n (Send service # as) = buffered (Suc n) as"
| "buffered n (Recv # as) = (0 < n \<and> buffered (n - 1) as)"

definition execution :: "action list \<Rightarrow> bool" where
  "execution sched \<longleftrightarrow>
     mset (sends sched) = mset services \<and> recvs sched = length services \<and> buffered 0 sched"

text \<open>The addresses of the outcomes without error, in the order of the outcomes.\<close>

definition successes :: "(string \<times> error option) list \<Rightarrow> string list" where
  "successes outs = map fst (filter (\<lambda>out. snd out = None) outs)"

section \<open>main: the run of the updater\<close>

text \<open>
  The configuration read at start-up (the globals \<open>apiToken\<close>, \<open>zoneName\<close> and
  \<open>recordName\<close>), and the answers of the provider's client in this run. Every
  operation of the client is called at most once in a run, so a function from the
  arguments to the answer is enough.
\<close>

record config =
  apiToken :: string
  zoneName :: string
  recordName :: string

record cloudflare =
  api_NewWithAPIToken :: "string \<Rightarrow> error option"
  api_ZoneIDByName :: "string \<Rightarrow> string \<times> error option"
  api_ListDNSRecords ::
    "ResourceContainer \<Rightarrow> ListDNSRecordsParams \<Rightarrow> DNSRecord list \<times> ResultInfo \<times> error option"
  api_UpdateDNSRecord ::
    "ResourceContainer \<Rightarrow> UpdateDNSRecordParams \<Rightarrow> DNSRecord \<times> error option"

text \<open>How \<open>main\<close> ends: it returns, or \<open>log.Fatalf\<close> prints and exits with status 1.\<close>

datatype exit = Return | Fatalf string "arg list"

definition main ::
  "config \<Rightarrow> cloudflare \<Rightarrow> network \<Rightarrow> action list \<Rightarrow> (event list \<times> exit) option" where
  "main cfg api net sched =
     (let t1 = [Call (NewWithAPIToken (apiToken cfg))] in
      case api_NewWithAPIToken api (apiToken cfg) of
        Some err \<Rightarrow> Some (t1, Fatalf ''Error initializing Cloudflare API: %v'' [V err])
      | None \<Rightarrow>
     (let t2 = t1 @ [Call (ZoneIDByName (zoneName cfg))] in
      case api_ZoneIDByName api (zoneName cfg) of
        (zoneID, Some err) \<Rightarrow>
          Some (t2, Fatalf ''Error fetching Zone ID for %s: %v'' [S (zoneName cfg), V err])
      | (zoneID, None) \<Rightarrow>
     (let zone = \<lparr>Level = ZoneRouteLevel, Identifier = zoneID\<rparr> in
      case getPublicIP net sched of
        None \<Rightarrow> None
      | Some ((ip, Some err), logged) \<Rightarrow>
          Some (t2 @ logged, Fatalf ''Error fetching public IP: %v'' [V err])
      | Some ((ip, None), logged) \<Rightarrow>
     (let t3 = t2 @ logged @ [Println [S ''Your IP address is '', S ip]];
          params = \<lparr>list_Name = recordName cfg, list_Type = ''A''\<rparr>;
          t4 = t3 @ [Call (ListDNSRecords zone params)] in
      case api_ListDNSRecords api zone params of
        (records, resultInfo, Some err) \<Rightarrow>
          Some (t4, Fatalf ''Error fetching DNS records: %v'' [V err])
      | (records, resultInfo, None) \<Rightarrow>
     (let t5 = t4 @ [Printf ''Total records found: %d\<newline>'' [D (Total resultInfo)]] in
      if length records > 0 then
        (let record = records ! 0 in
         if Content record = ip then
           Some (t5 @ [Printf ''DNS record already up-to-date for %s: %s\<newline>''
                         [S (recordName cfg), S ip]], Return)
         else
           (let record = record\<lparr>Content := ip\<rparr>;
                update = \<lparr>upd_Type = Type record, upd_Name = Name record,
                          upd_Content = Content record, upd_TTL = TTL record,
                          upd_Proxied = Proxied record\<rparr>;
                t6 = t5 @ [Call (UpdateDNSRecord zone update)] in
            case api_UpdateDNSRecord api zone update of
              (record, Some err) \<Rightarrow> Some (t6, Fatalf ''Error updating DNS record: %v'' [V err])
            | (record, None) \<Rightarrow>
           (let t7 = t6 @ [Printf ''Successfully updated DNS record for %s to %s\<newline>''
                             [S (recordName cfg), S ip]] in
            if length records = 0 then
              Some (t7, Fatalf ''No A records found for %s'' [S (recordName cfg)])
            else
              Some (t7 @ [Printf ''Successfully updated DNS record for %s to %s\<newline>''
                            [S (recordName cfg), S ip]], Return))))
      else Some (t5, Fatalf ''No A records found for %s'' [S (recordName cfg)]))))))"

section \<open>Auxiliary notions for the statements\<close>

text \<open>The outcome of a goroutine as the value it sends, and the addresses the
  collecting loop keeps of a sequence of received values.\<close>

definition outcome :: "network \<Rightarrow> string \<Rightarrow> result" where
  "outcome net service =
     (case fetchIP net service of (ip, err) \<Rightarrow> \<lparr>res_ip = ip, res_err = err\<rparr>)"

definition collected :: "result list \<Rightarrow> string list" where
  "collected rs = map res_ip (filter (\<lambda>res. res_err res = None) rs)"

text \<open>The calls of a run that read the records, and those that change one.\<close>

fun is_list :: "event \<Rightarrow> bool" where
  "is_list (Call (ListDNSRecords zone params)) = True"
| "is_list ev = False"

fun is_update :: "event \<Rightarrow> bool" where
  "is_update (Call (UpdateDNSRecord zone params)) = True"
| "is_update ev = False"

text \<open>The provider's client with every listing cut down to its first record.\<close>

definition first_only :: "cloudflare \<Rightarrow> cloudflare" where
  "first_only api =
     api\<lparr>api_ListDNSRecords := \<lambda>zone params.
           (case api_ListDNSRecords api zone params of
              (records, info, err) \<Rightarrow> (take 1 records, info, err))\<rparr>"

subsection \<open>Concrete runs\<close>

text \<open>Networks, a configuration and a provider for the concrete runs below. The
  provider lists two A-records for the name; its update answers with the record as
  sent.\<close>

definition both_agree :: network where
  "both_agree url = Response 200 ''203.0.113.5\<newline>''"

definition disagreeing :: network where
  "disagreeing url =
     (if url = ''https://checkip.amazonaws.com'' then Response 200 ''203.0.113.5\<newline>''
      else Response 200 ''203.0.113.9\<newline>'')"


definition only_second :: network where
  "only_second url =
     (if url = ''https://checkip.amazonaws.com'' then DoError ''context deadline exceeded''
      else Response 200 ''203.0.113.5\<newline>'')"

definition all_fail :: network where
  "all_fail url =
     (if url = ''https://checkip.amazonaws.com'' then DoError ''context deadline exceeded''
      else Response 200 '' \<newline>'')"

definition empty_first :: network where
  "empty_first url =
     (if url = ''https://checkip.amazonaws.com'' then Response 200 ''\<newline>''
      else Response 200 ''203.0.113.5\<newline>'')"

definition unchanged :: network where
  "unchanged url = Response 200 ''198.51.100.1\<newline>''"

definition in_order :: "action list" where
  "in_order = [Send (services ! 0), Send (services ! 1), Recv, Recv]"

definition second_first :: "action list" where
  "second_first = [Send (services ! 1), Recv, Send (services ! 0), Recv]"

definition sample_cfg :: config where
  "sample_cfg = \<lparr>apiToken = ''token'', zoneName = ''example.com'',
                  recordName = ''home.example.com''\<rparr>"

definition sample_first :: DNSRecord where
  "sample_first = \<lparr>Type = ''A'', Name = ''home.example.com'', Content = ''198.51.100.1'',
                    TTL = 300, Proxied = Some False\<rparr>"

definition sample_second :: DNSRecord where
  "sample_second = \<lparr>Type = ''A'', Name = ''home.example.com'', Content = ''192.0.2.7'',
                     TTL = 120, Proxied = Some True\<rparr>"

definition sample_api :: cloudflare where
  "sample_api =
     \<lparr>api_NewWithAPIToken = (\<lambda>token. None),
      api_ZoneIDByName = (\<lambda>name. (''zone-1'', None)),
      api_ListDNSRecords = (\<lambda>zone params. ([sample_first, sample_second], \<lparr>Total = 2\<rparr>, None)),
      api_UpdateDNSRecord = (\<lambda>zone params.
        (\<lparr>Type = upd_Type params, Name = upd_Name params, Content = upd_Content params,
          TTL = upd_TTL params, Proxied = upd_Proxied params\<rparr>, None))\<rparr>"

section \<open>Lemmas\<close>

subsection \<open>The goroutine machine\<close>

text \<open>
  \<open>run_sound\<close>: what every run of the machine satisfies. \<open>run_complete\<close>: a
  list of actions that respects the buffer and sends for pending goroutines only is a
  run, and its final state is determined by the order of the sends. Together they
  give \<open>getPublicIP_eq\<close>: \<open>getPublicIP\<close> returns exactly on the executions, with
  the decision taken on the successful outcomes in the order of arrival.
\<close>

lemma collected_simps [simp]:
  "collected [] = []"
  "collected (res # rs) = (if res_err res = None then res_ip res # collected rs else collected rs)"
  "collected (rs @ rs') = collected rs @ collected rs'"
  by (simp_all add: collected_def)

lemma collected_outcome: "collected (map (outcome net) us) = successes (map (fetchIP net) us)"
  by (induction us) (auto simp: successes_def outcome_def collected_def split: prod.splits)

lemma step_Send:
  "step net (Send u) s =
     (if u \<in> set (pending s) \<and> length (results s) < length services
      then Some (s\<lparr>pending := remove1 u (pending s), results := results s @ [outcome net u]\<rparr>)
      else None)"
  by (cases "fetchIP net u") (simp add: outcome_def)

lemma run_sound:
  "run net sched s = Some s' \<Longrightarrow>
     buffered (length (results s)) sched \<and>
     mset (sends sched) + mset (pending s') = mset (pending s) \<and>
     received s' = received s + recvs sched \<and>
     length (results s') + recvs sched = length (results s) + length (sends sched)"
proof (induction sched arbitrary: s)
  case Nil
  then show ?case by simp
next
  case (Cons a as)
  from Cons.prems obtain t where st: "step net a s = Some t" and rn: "run net as t = Some s'"
    by (auto split: option.splits)
  note ih = Cons.IH [OF rn]
  show ?case
  proof (cases a)
    case (Send u)
    with st have u: "u \<in> set (pending s)"
      and t: "t = s\<lparr>pending := remove1 u (pending s), results := results s @ [outcome net u]\<rparr>"
      by (auto simp: step_Send simp del: step.simps split: if_splits)
    from u have m: "add_mset u (mset (pending t)) = mset (pending s)"
      by (simp add: t)
    from ih have "add_mset u (mset (sends as) + mset (pending s')) = add_mset u (mset (pending t))"
      by simp
    with m have "mset (sends (a # as)) + mset (pending s') = mset (pending s)"
      by (simp add: Send)
    moreover from ih have "buffered (length (results s)) (a # as)"
      by (simp add: Send t)
    moreover from ih have "received s' = received s + recvs (a # as)"
      by (simp add: Send t)
    moreover from ih
    have "length (results s') + recvs (a # as) = length (results s) + length (sends (a # as))"
      by (simp add: Send t)
    ultimately show ?thesis by blast
  next
    case Recv
    with st obtain res rest where r: "results s = res # rest"
      and t: "t = s\<lparr>results := rest,
                    ips := (if res_err res = None then ips s @ [res_ip res] else ips s),
                    received := Suc (received s)\<rparr>"
      by (auto split: if_splits list.splits)
    with ih Recv show ?thesis by simp
  qed
qed

lemma run_complete:
  "buffered (length (results s)) sched \<Longrightarrow>
   mset (sends sched) \<subseteq># mset (pending s) \<Longrightarrow>
   received s + recvs sched \<le> length services \<Longrightarrow>
   received s + length (results s) + length (pending s) \<le> length services \<Longrightarrow>
   \<exists>s'. run net sched s = Some s' \<and>
        results s' = drop (recvs sched) (results s @ map (outcome net) (sends sched)) \<and>
        ips s' = ips s @ collected (take (recvs sched) (results s @ map (outcome net) (sends sched))) \<and>
        received s' = received s + recvs sched"
proof (induction sched arbitrary: s)
  case Nil
  then show ?case by simp
next
  case (Cons a as)
  show ?case
  proof (cases a)
    case (Send u)
    let ?t = "s\<lparr>pending := remove1 u (pending s), results := results s @ [outcome net u]\<rparr>"
    from Cons.prems(2) Send have u: "u \<in> set (pending s)"
      by (auto dest: mset_subset_eq_insertD)
    then have "pending s \<noteq> []" by auto
    then have "0 < length (pending s)" by simp
    with Cons.prems(4) have cap: "length (results s) < length services" by linarith
    from u cap have st: "step net a s = Some ?t"
      by (simp add: Send step_Send del: step.simps)
    have 1: "buffered (length (results ?t)) as"
      using Cons.prems(1) Send by simp
    have 2: "mset (sends as) \<subseteq># mset (pending ?t)"
      using Cons.prems(2) Send u by (simp add: insert_subset_eq_iff)
    have 3: "received ?t + recvs as \<le> length services"
      using Cons.prems(3) Send by simp
    have "length (pending ?t) = length (pending s) - 1"
      using u by (simp add: length_remove1)
    moreover have "length (results ?t) = Suc (length (results s))" and "received ?t = received s"
      by simp_all
    ultimately
    have 4: "received ?t + length (results ?t) + length (pending ?t) \<le> length services"
      using Cons.prems(4) \<open>0 < length (pending s)\<close> by linarith
    from Cons.IH [OF 1 2 3 4] obtain s' where rn: "run net as ?t = Some s'"
      and rs: "results s' = drop (recvs as) (results ?t @ map (outcome net) (sends as))"
      and ip: "ips s' = ips ?t @ collected (take (recvs as) (results ?t @ map (outcome net) (sends as)))"
      and rc: "received s' = received ?t + recvs as"
      by blast
    from st rn have "run net (a # as) s = Some s'" by simp
    moreover from rs
    have "results s' = drop (recvs (a # as)) (results s @ map (outcome net) (sends (a # as)))"
      by (simp add: Send)
    moreover from ip
    have "ips s' = ips s @ collected (take (recvs (a # as)) (results s @ map (outcome net) (sends (a # as))))"
      by (simp add: Send)
    moreover from rc have "received s' = received s + recvs (a # as)"
      by (simp add: Send)
    ultimately show ?thesis by blast
  next
    case Recv
    with Cons.prems(1) obtain res rest where r: "results s = res # rest"
      by (cases "results s") auto
    let ?t = "s\<lparr>results := rest,
                 ips := (if res_err res = None then ips s @ [res_ip res] else ips s),
                 received := Suc (received s)\<rparr>"
    from Cons.prems(3) Recv have "received s < length services" by simp
    with r have st: "step net a s = Some ?t"
      by (simp add: Recv)
    have 1: "buffered (length (results ?t)) as"
      using Cons.prems(1) Recv r by simp
    have 2: "mset (sends as) \<subseteq># mset (pending ?t)"
      using Cons.prems(2) Recv by simp
    have 3: "received ?t + recvs as \<le> length services"
      using Cons.prems(3) Recv by simp
    have 4: "received ?t + length (results ?t) + length (pending ?t) \<le> length services"
      using Cons.prems(4) r by simp
    from Cons.IH [OF 1 2 3 4] obtain s' where rn: "run net as ?t = Some s'"
      and rs: "results s' = drop (recvs as) (results ?t @ map (outcome net) (sends as))"
      and ip: "ips s' = ips ?t @ collected (take (recvs as) (results ?t @ map (outcome net) (sends as)))"
      and rc: "received s' = received ?t + recvs as"
      by blast
    from st rn have "run net (a # as) s = Some s'" by simp
    moreover from rs
    have "results s' = drop (recvs (a # as)) (results s @ map (outcome net) (sends (a # as)))"
      by (simp add: Recv r)
    moreover from ip
    have "ips s' = ips s @ collected (take (recvs (a # as)) (results s @ map (outcome net) (sends (a # as))))"
      by (simp add: Recv r)
    moreover from rc have "received s' = received s + recvs (a # as)"
      by (simp add: Recv)
    ultimately show ?thesis by blast
  qed
qed

lemma length_sends_execution: "execution sched \<Longrightarrow> length (sends sched) = length services"
  unfolding execution_def by (metis size_mset)

lemma getPublicIP_execution:
  assumes "execution sched"
  shows "getPublicIP net sched = Some (decide (successes (map (fetchIP net) (sends sched))))"
proof -
  from assms have b: "buffered (length (results spawn)) sched"
    and m: "mset (sends sched) \<subseteq># mset (pending spawn)"
    and r: "received spawn + recvs sched \<le> length services"
    by (simp_all add: execution_def spawn_def)
  have i: "received spawn + length (results spawn) + length (pending spawn) \<le> length services"
    by (simp add: spawn_def)
  from run_complete [OF b m r i, of net] obtain s' where
    rn: "run net sched spawn = Some s'"
    and ips: "ips s' = ips spawn @ collected (take (recvs sched) (results spawn @ map (outcome net) (sends sched)))"
    and rc: "received s' = received spawn + recvs sched"
    by blast
  from assms have n: "recvs sched = length services" by (simp add: execution_def)
  from ips n length_sends_execution [OF assms]
  have "ips s' = successes (map (fetchIP net) (sends sched))"
    by (simp add: spawn_def collected_outcome)
  with rn rc n show ?thesis
    by (simp add: getPublicIP_def spawn_def)
qed

lemma getPublicIP_returns_execution:
  assumes "getPublicIP net sched = Some r"
  shows "execution sched"
proof -
  from assms obtain s' where rn: "run net sched spawn = Some s'"
    and rc: "received s' = length services"
    by (auto simp: getPublicIP_def split: option.splits if_splits)
  from run_sound [OF rn] rc
  have b: "buffered 0 sched"
    and m: "mset (sends sched) + mset (pending s') = mset services"
    and n: "recvs sched = length services"
    and l: "length (results s') + recvs sched = length (sends sched)"
    by (simp_all add: spawn_def)
  from m have "length (sends sched) + length (pending s') = length services"
    by (metis size_mset size_union)
  with l n have "length (pending s') = 0" by linarith
  then have "pending s' = []" by simp
  with m b n show ?thesis by (simp add: execution_def)
qed

lemma length_execution: "execution sched \<Longrightarrow> length sched = 2 * length services"
proof -
  have "length sched = length (sends sched) + recvs sched" for sched
    by (induction sched rule: sends.induct) simp_all
  then show "execution sched \<Longrightarrow> length sched = 2 * length services"
    using length_sends_execution [of sched] by (simp add: execution_def)
qed

subsection \<open>Successful outcomes and the decision\<close>

lemma mset_successes:
  "mset us = mset vs \<Longrightarrow> mset (successes (map f us)) = mset (successes (map f vs))"
proof -
  have "mset (successes (map f ws)) = image_mset fst (filter_mset (\<lambda>out. snd out = None) (image_mset f (mset ws)))" for ws
    by (simp add: successes_def)
  then show "mset us = mset vs \<Longrightarrow> mset (successes (map f us)) = mset (successes (map f vs))"
    by simp
qed

lemma set_successes: "x \<in> set (successes (map f us)) \<longleftrightarrow> (\<exists>u \<in> set us. f u = (x, None))"
  by (induction us) (auto simp: successes_def prod_eq_iff)

lemma mset_eq_single_list: "mset zs = mset [v] \<Longrightarrow> zs = [v]"
  by simp

lemma mset_eq_pair_same: "mset zs = mset [v, v] \<Longrightarrow> zs = [v, v]"
proof -
  assume m: "mset zs = mset [v, v]"
  then have "length zs = 2" by (metis length_Cons list.size(3) size_mset numeral_2_eq_2)
  moreover from m have "set zs = {v}" by (metis mset_eq_setD list.simps(15) insert_absorb2 empty_set)
  ultimately show ?thesis
    by (cases zs; cases "tl zs") auto
qed

lemma decide_single: "decide [v] = ((v, None), [])"
  by (simp add: decide_def)

lemma decide_same: "decide [v, v] = ((v, None), [])"
  by (simp add: decide_def)

lemma decide_differ:
  "a \<noteq> b \<Longrightarrow> decide [a, b] = ((a, None),
     [LogPrintf ''Warning: IP mismatch between services: %s vs %s. Using %s'' [S a, S b, S a]])"
  by (simp add: decide_def)

lemma decide_Nil: "decide [] = (([], Some ''failed to fetch public IP from all services''), [])"
  by (simp add: decide_def)

lemma sends_two:
  assumes "execution sched"
  shows "sends sched = [services ! 0, services ! 1] \<or> sends sched = [services ! 1, services ! 0]"
proof -
  from assms have m: "mset (sends sched) = mset [services ! 0, services ! 1]"
    by (simp add: execution_def services_def)
  then have "length (sends sched) = 2"
    by (metis length_Cons list.size(3) size_mset numeral_2_eq_2)
  then obtain x y where xy: "sends sched = [x, y]"
    by (cases "sends sched"; cases "tl (sends sched)") auto
  with m show ?thesis
    by (auto simp: add_eq_conv_ex)
qed

subsection \<open>The network only matters through fetchIP\<close>



subsection \<open>main\<close>

lemma main_resolved:
  assumes "api_NewWithAPIToken api (apiToken cfg) = None"
    and "api_ZoneIDByName api (zoneName cfg) = (zoneID, None)"
    and "getPublicIP net sched = Some ((ip, None), logged)"
    and "api_ListDNSRecords api \<lparr>Level = ZoneRouteLevel, Identifier = zoneID\<rparr>
           \<lparr>list_Name = recordName cfg, list_Type = ''A''\<rparr> = (first # others, info, None)"
  shows "main cfg api net sched =
    (let zone = \<lparr>Level = ZoneRouteLevel, Identifier = zoneID\<rparr>;
         t5 = [Call (NewWithAPIToken (apiToken cfg)), Call (ZoneIDByName (zoneName cfg))] @ logged @
              [Println [S ''Your IP address is '', S ip],
               Call (ListDNSRecords zone \<lparr>list_Name = recordName cfg, list_Type = ''A''\<rparr>),
               Printf ''Total records found: %d\<newline>'' [D (Total info)]];
         update = \<lparr>upd_Type = Type first, upd_Name = Name first, upd_Content = ip,
                   upd_TTL = TTL first, upd_Proxied = Proxied first\<rparr>
     in if Content first = ip
        then Some (t5 @ [Printf ''DNS record already up-to-date for %s: %s\<newline>''
                           [S (recordName cfg), S ip]], Return)
        else (case snd (api_UpdateDNSRecord api zone update) of
                Some err \<Rightarrow> Some (t5 @ [Call (UpdateDNSRecord zone update)],
                                  Fatalf ''Error updating DNS record: %v'' [V err])
              | None \<Rightarrow> Some (t5 @ [Call (UpdateDNSRecord zone update),
                  Printf ''Successfully updated DNS record for %s to %s\<newline>'' [S (recordName cfg), S ip],
                  Printf ''Successfully updated DNS record for %s to %s\<newline>'' [S (recordName cfg), S ip]],
                  Return)))"
  using assms by (simp add: main_def Let_def split: prod.splits option.splits)

lemma getPublicIP_error:
  assumes "getPublicIP net sched = Some ((ip, Some err), logged)"
  shows "ip = [] \<and> err = ''failed to fetch public IP from all services'' \<and> logged = []"
proof -
  from assms have "execution sched" by (rule getPublicIP_returns_execution)
  with assms have "decide (successes (map (fetchIP net) (sends sched))) = ((ip, Some err), logged)"
    by (simp add: getPublicIP_execution)
  then show ?thesis
    by (auto simp: decide_def split: if_splits)
qed

lemma main_unresolved:
  assumes "getPublicIP net sched = Some (([], Some err), [])"
  shows "\<exists>evs msg args. main cfg api net sched = Some (evs, Fatalf msg args) \<and>
           filter is_list evs = [] \<and> filter is_update evs = [] \<and>
           (api_NewWithAPIToken api (apiToken cfg) = None \<longrightarrow>
            snd (api_ZoneIDByName api (zoneName cfg)) = None \<longrightarrow>
            msg = ''Error fetching public IP: %v'' \<and> args = [V err])"
  using assms by (simp add: main_def Let_def split: prod.splits option.splits)

subsection \<open>TrimSpace\<close>

lemma find_Some_holds: "find P xs = Some x \<Longrightarrow> P x \<and> x \<in> set xs"
  by (induction xs) (auto split: if_splits)

lemma leading_zero_iff:
  "leading pats s = 0 \<longleftrightarrow> (\<forall>p\<in>set pats. p \<noteq> [] \<longrightarrow> take (length p) s \<noteq> p)"
proof (cases "find (\<lambda>p. p \<noteq> [] \<and> take (length p) s = p) pats")
  case None
  then have "leading pats s = 0" by (simp add: leading_def)
  moreover from None have "\<forall>p\<in>set pats. p \<noteq> [] \<longrightarrow> take (length p) s \<noteq> p"
    unfolding find_None_iff by blast
  ultimately show ?thesis by simp
next
  case (Some p)
  from find_Some_holds [OF Some]
  have p: "p \<in> set pats" "p \<noteq> []" "take (length p) s = p" by simp_all
  from Some p(2) have "leading pats s \<noteq> 0" by (simp add: leading_def)
  with p show ?thesis by blast
qed

lemma leading_pattern:
  assumes "leading pats s \<noteq> 0"
  shows "take (leading pats s) s \<in> set pats"
proof (cases "find (\<lambda>p. p \<noteq> [] \<and> take (length p) s = p) pats")
  case None
  with assms show ?thesis by (simp add: leading_def)
next
  case (Some p)
  from find_Some_holds [OF Some]
  have "p \<in> set pats" and "take (length p) s = p" by simp_all
  moreover from Some have "leading pats s = length p" by (simp add: leading_def)
  ultimately show ?thesis by simp
qed

lemma strip_leading_decomp:
  "\<exists>ps. set ps \<subseteq> set pats \<and> s = concat ps @ strip_leading pats s"
proof (induction pats s rule: strip_leading.induct)
  case (1 pats s)
  show ?case
  proof (cases "leading pats s = 0")
    case True
    then have "strip_leading pats s = s" by (simp add: strip_leading.simps)
    then have "set [] \<subseteq> set pats \<and> s = concat [] @ strip_leading pats s" by simp
    then show ?thesis by blast
  next
    case False
    from 1 [OF False] obtain ps where ps: "set ps \<subseteq> set pats"
      and d: "drop (leading pats s) s = concat ps @ strip_leading pats (drop (leading pats s) s)"
      by blast
    from False have st: "strip_leading pats s = strip_leading pats (drop (leading pats s) s)"
      by (subst strip_leading.simps) simp
    have "s = take (leading pats s) s @ drop (leading pats s) s" by simp
    also have "\<dots> = concat (take (leading pats s) s # ps) @ strip_leading pats s"
      using d st by simp
    finally have "s = concat (take (leading pats s) s # ps) @ strip_leading pats s" .
    moreover have "set (take (leading pats s) s # ps) \<subseteq> set pats"
      using ps leading_pattern [OF False] by simp
    ultimately show ?thesis by blast
  qed
qed

lemma leading_strip_leading: "leading pats (strip_leading pats s) = 0"
proof (induction pats s rule: strip_leading.induct)
  case (1 pats s)
  show ?case
  proof (cases "leading pats s = 0")
    case True
    then show ?thesis by (simp add: strip_leading.simps)
  next
    case False
    with 1 show ?thesis by (subst strip_leading.simps) simp
  qed
qed

lemma Nil_notin_space_runes: "[] \<notin> set space_runes"
  by (simp add: space_runes_def)

lemma TrimLeftSpace_decomp:
  "\<exists>ls. set ls \<subseteq> set space_runes \<and> s = concat ls @ TrimLeftSpace s"
  unfolding TrimLeftSpace_def by (rule strip_leading_decomp)

lemma TrimRightSpace_decomp:
  "\<exists>rs. set rs \<subseteq> set space_runes \<and> s = TrimRightSpace s @ concat rs"
proof -
  from strip_leading_decomp [of "map rev space_runes" "rev s"]
  obtain qs where qs: "set qs \<subseteq> set (map rev space_runes)"
    and r: "rev s = concat qs @ strip_leading (map rev space_runes) (rev s)"
    by blast
  from r have "rev (rev s) = rev (concat qs @ strip_leading (map rev space_runes) (rev s))"
    by simp
  then have "s = TrimRightSpace s @ concat (map rev (rev qs))"
    by (simp add: TrimRightSpace_def rev_concat)
  moreover from qs have "set (map rev (rev qs)) \<subseteq> set space_runes"
    by force
  ultimately show ?thesis by blast
qed

lemma TrimSpace_decomp:
  "\<exists>ls rs. set ls \<subseteq> set space_runes \<and> set rs \<subseteq> set space_runes \<and>
           s = concat ls @ TrimSpace s @ concat rs"
proof -
  from TrimLeftSpace_decomp [of s] obtain ls where
    ls: "set ls \<subseteq> set space_runes" and l: "s = concat ls @ TrimLeftSpace s" by blast
  from TrimRightSpace_decomp [of "TrimLeftSpace s"] obtain rs where
    rs: "set rs \<subseteq> set space_runes" and r: "TrimLeftSpace s = TrimSpace s @ concat rs"
    unfolding TrimSpace_def by blast
  from l r have "s = concat ls @ TrimSpace s @ concat rs" by simp
  with ls rs show ?thesis by blast
qed

lemma TrimSpace_no_suffix:
  assumes "p \<in> set space_runes"
  shows "\<not> suffix p (TrimSpace s)"
proof
  assume "suffix p (TrimSpace s)"
  then have "prefix (rev p) (rev (TrimSpace s))" by (simp add: suffix_to_prefix)
  then have "take (length (rev p)) (rev (TrimSpace s)) = rev p"
    by (auto simp: prefix_def)
  moreover have "leading (map rev space_runes) (rev (TrimSpace s)) = 0"
    by (simp add: TrimSpace_def TrimRightSpace_def leading_strip_leading)
  moreover from assms have "rev p \<in> set (map rev space_runes)" and "rev p \<noteq> []"
    using Nil_notin_space_runes by auto
  ultimately show False unfolding leading_zero_iff by blast
qed

lemma TrimSpace_no_prefix:
  assumes "p \<in> set space_runes"
  shows "\<not> prefix p (TrimSpace s)"
proof
  assume "prefix p (TrimSpace s)"
  moreover from TrimRightSpace_decomp [of "TrimLeftSpace s"]
  have "prefix (TrimSpace s) (TrimLeftSpace s)"
    unfolding TrimSpace_def by (metis prefixI)
  ultimately have "prefix p (TrimLeftSpace s)" by (rule prefix_order.trans)
  then have "take (length p) (TrimLeftSpace s) = p"
    by (auto simp: prefix_def)
  moreover have "leading space_runes (TrimLeftSpace s) = 0"
    by (simp add: TrimLeftSpace_def leading_strip_leading)
  moreover from assms have "p \<noteq> []" using Nil_notin_space_runes by auto
  ultimately show False using assms unfolding leading_zero_iff by blast
qed

subsection \<open>getPublicIP in closed form\<close>

lemma getPublicIP_eq:
  "getPublicIP net sched =
     (if execution sched then Some (decide (successes (map (fetchIP net) (sends sched)))) else None)"
proof (cases "execution sched")
  case True
  then show ?thesis by (simp add: getPublicIP_execution)
next
  case False
  then have "getPublicIP net sched = None"
    using getPublicIP_returns_execution [of net sched] by (cases "getPublicIP net sched") auto
  with False show ?thesis by simp
qed

lemma successes_cong:
  "(\<And>u. u \<in> set us \<Longrightarrow> successes [f u] = successes [g u]) \<Longrightarrow>
   successes (map f us) = successes (map g us)"
proof (induction us)
  case Nil
  show ?case by simp
next
  case (Cons u us)
  have c: "successes (x # xs) = successes [x] @ successes xs" for x :: "string \<times> error option" and xs
    by (simp add: successes_def)
  from Cons.prems have "successes [f u] = successes [g u]" by simp
  moreover from Cons have "successes (map f us) = successes (map g us)" by simp
  ultimately show ?case
    using c [of "f u" "map f us"] c [of "g u" "map g us"] by simp
qed

lemma successes_filter:
  assumes "snd (f url) \<noteq> None"
  shows "successes (map f us) = successes (map f (filter (\<lambda>u. u \<noteq> url) us))"
  using assms by (induction us) (auto simp: successes_def)

subsection \<open>No deadlock, and a bound on the length of a run\<close>

text \<open>
  While the collecting loop has not finished, some action is enabled, and no run has
  more than \<open>2 * len(services)\<close> actions: every run extends to an execution, so
  \<open>getPublicIP\<close> returns under every scheduling of the goroutines.
\<close>

lemma run_progress:
  assumes "run net sched spawn = Some s" and "received s < length services"
  shows "\<exists>a s'. step net a s = Some s'"
proof (cases "results s")
  case (Cons res rest)
  with assms(2) have "step net Recv s \<noteq> None" by simp
  then show ?thesis by blast
next
  case Nil
  from run_sound [OF assms(1)]
  have m: "mset (sends sched) + mset (pending s) = mset services"
    and r: "received s = recvs sched"
    and l: "length (results s) + recvs sched = length (sends sched)"
    by (simp_all add: spawn_def)
  from m have "length (sends sched) + length (pending s) = length services"
    by (metis size_mset size_union)
  with r l Nil assms(2) have "pending s \<noteq> []" by auto
  then have "hd (pending s) \<in> set (pending s)" by simp
  moreover from assms(2) have "0 < length services" by linarith
  ultimately have "step net (Send (hd (pending s))) s \<noteq> None"
    using Nil by (simp add: step_Send del: step.simps)
  then show ?thesis by blast
qed

lemma run_bounded:
  assumes "run net sched spawn = Some s"
  shows "length sched \<le> 2 * length services"
proof -
  have len: "length as = length (sends as) + recvs as" for as
    by (induction as rule: sends.induct) simp_all
  from run_sound [OF assms]
  have m: "mset (sends sched) + mset (pending s) = mset services"
    and l: "length (results s) + recvs sched = length (sends sched)"
    by (simp_all add: spawn_def)
  from m have "length (sends sched) + length (pending s) = length services"
    by (metis size_mset size_union)
  with l len [of sched] show ?thesis by linarith
qed

lemma main_first_only: "main cfg (first_only api) net sched = main cfg api net sched"
  by (auto simp: main_def first_only_def Let_def simp del: length_take
      split: prod.splits option.splits)

section \<open>The claims\<close>

subsection \<open>Resolution\<close>

text \<open>
  Claim C1, as the specification states it: when both services answer with
  different addresses, the address of the first service in configured order is
  returned, whichever outcome arrived first. The program keeps no index with an
  outcome; \<open>ips\<close> is filled in the order of arrival. In the run below the outcome
  of the second service arrives first: both fetches succeed, with different
  addresses, and the address of the second service is returned.
\<close>

theorem getPublicIP_configured_order_counterexample:
  "fetchIP disagreeing (services ! 0) = (''203.0.113.5'', None) \<and>
   fetchIP disagreeing (services ! 1) = (''203.0.113.9'', None) \<and>
   execution second_first \<and>
   getPublicIP disagreeing second_first =
     Some ((''203.0.113.9'', None),
       [LogPrintf ''Warning: IP mismatch between services: %s vs %s. Using %s''
          [S ''203.0.113.9'', S ''203.0.113.5'', S ''203.0.113.9'']])"
  by code_simp

text \<open>
  Claim C1, amended: when both services answer with different addresses,
  \<open>getPublicIP\<close> returns the address of the service whose outcome was sent to the
  channel first (the address of the first configured service if its outcome arrived
  first, that of the second otherwise), without error, and logs one warning that
  names both addresses.
\<close>

theorem getPublicIP_disagreement:
  assumes "execution sched"
    and "fetchIP net (services ! 0) = (a, None)"
    and "fetchIP net (services ! 1) = (b, None)"
    and "a \<noteq> b"
  shows "getPublicIP net sched =
    Some (if hd (sends sched) = services ! 0
          then ((a, None), [LogPrintf ''Warning: IP mismatch between services: %s vs %s. Using %s'' [S a, S b, S a]])
          else ((b, None), [LogPrintf ''Warning: IP mismatch between services: %s vs %s. Using %s'' [S b, S a, S b]]))"
proof -
  have ne: "services ! 1 \<noteq> services ! 0" by (simp add: services_def)
  from sends_two [OF assms(1)] show ?thesis
  proof
    assume "sends sched = [services ! 0, services ! 1]"
    with assms ne show ?thesis
      by (simp add: getPublicIP_execution successes_def decide_differ)
  next
    assume "sends sched = [services ! 1, services ! 0]"
    with assms ne show ?thesis
      by (simp add: getPublicIP_execution successes_def decide_differ)
  qed
qed

theorem getPublicIP_disagreement_witness:
  "getPublicIP disagreeing in_order =
     Some ((''203.0.113.5'', None),
       [LogPrintf ''Warning: IP mismatch between services: %s vs %s. Using %s''
          [S ''203.0.113.5'', S ''203.0.113.9'', S ''203.0.113.5'']])"
proof -
  have e: "execution in_order" by code_simp
  have a: "fetchIP disagreeing (services ! 0) = (''203.0.113.5'', None)" by code_simp
  have b: "fetchIP disagreeing (services ! 1) = (''203.0.113.9'', None)" by code_simp
  have ne: "''203.0.113.5'' \<noteq> ''203.0.113.9''" by simp
  from getPublicIP_disagreement [OF e a b ne] show ?thesis
    by (simp add: in_order_def)
qed




text \<open>
  Claim C3: when the fetch of every service fails, \<open>getPublicIP\<close> returns the
  error "failed to fetch public IP from all services", and \<open>main\<close> ends in
  \<open>log.Fatalf\<close> without a call that lists the records and without a call that
  updates one; when the client and the zone were obtained, the fatal message is the
  one for the public IP, carrying that error.
\<close>

theorem all_sources_fail:
  assumes "execution sched" and "\<forall>u\<in>set services. snd (fetchIP net u) \<noteq> None"
  shows "getPublicIP net sched =
           Some (([], Some ''failed to fetch public IP from all services''), []) \<and>
         (\<exists>evs msg args. main cfg api net sched = Some (evs, Fatalf msg args) \<and>
            filter is_list evs = [] \<and> filter is_update evs = [] \<and>
            (api_NewWithAPIToken api (apiToken cfg) = None \<longrightarrow>
             snd (api_ZoneIDByName api (zoneName cfg)) = None \<longrightarrow>
             msg = ''Error fetching public IP: %v'' \<and>
             args = [V ''failed to fetch public IP from all services'']))"
proof -
  from assms(1) have "set (sends sched) = set services"
    by (metis execution_def mset_eq_setD)
  have "successes (map (fetchIP net) (sends sched)) = []"
  proof (rule ccontr)
    assume "successes (map (fetchIP net) (sends sched)) \<noteq> []"
    then obtain x where "x \<in> set (successes (map (fetchIP net) (sends sched)))"
      by (cases "successes (map (fetchIP net) (sends sched))") auto
    then obtain u where "u \<in> set (sends sched)" and "fetchIP net u = (x, None)"
      unfolding set_successes by blast
    with assms(2) \<open>set (sends sched) = set services\<close> show False by auto
  qed
  with assms(1) have g: "getPublicIP net sched =
      Some (([], Some ''failed to fetch public IP from all services''), [])"
    by (simp add: getPublicIP_execution decide_Nil)
  from g main_unresolved [OF g, of cfg api] show ?thesis by blast
qed

theorem all_sources_fail_witness:
  "execution second_first \<and>
   snd (fetchIP all_fail (services ! 0)) = Some ''context deadline exceeded'' \<and>
   snd (fetchIP all_fail (services ! 1)) =
     Some ''received empty IP address from https://icanhazip.com'' \<and>
   getPublicIP all_fail second_first =
     Some (([], Some ''failed to fetch public IP from all services''), []) \<and>
   main sample_cfg sample_api all_fail second_first =
     Some ([Call (NewWithAPIToken ''token''), Call (ZoneIDByName ''example.com'')],
           Fatalf ''Error fetching public IP: %v''
             [V ''failed to fetch public IP from all services''])"
proof -
  have e: "execution second_first" by code_simp
  have a: "snd (fetchIP all_fail (services ! 0)) = Some ''context deadline exceeded''"
    by code_simp
  have b: "snd (fetchIP all_fail (services ! 1)) =
      Some ''received empty IP address from https://icanhazip.com''"
    by code_simp
  have m: "main sample_cfg sample_api all_fail second_first =
     Some ([Call (NewWithAPIToken ''token''), Call (ZoneIDByName ''example.com'')],
           Fatalf ''Error fetching public IP: %v''
             [V ''failed to fetch public IP from all services''])"
    by code_simp
  have "set services = {services ! 0, services ! 1}" by (simp add: services_def)
  with a b have f: "\<forall>u\<in>set services. snd (fetchIP all_fail u) \<noteq> None" by simp
  from all_sources_fail [OF e f, of sample_cfg sample_api] e a b m show ?thesis
    by blast
qed

text \<open>
  Claim C4: when the fetch of at least one service succeeds, \<open>getPublicIP\<close>
  returns an address without error. When exactly one fetch succeeded, it is the
  address of that fetch; when both succeeded with the same address, it is that
  address; in both cases nothing is logged.
\<close>

theorem getPublicIP_some_success:
  assumes "execution sched" and "\<exists>u\<in>set services. snd (fetchIP net u) = None"
  shows "\<exists>ip logged. getPublicIP net sched = Some ((ip, None), logged) \<and>
           (\<forall>v. successes (map (fetchIP net) services) = [v] \<longrightarrow> ip = v \<and> logged = []) \<and>
           (\<forall>v. successes (map (fetchIP net) services) = [v, v] \<longrightarrow> ip = v \<and> logged = [])"
proof -
  let ?zs = "successes (map (fetchIP net) (sends sched))"
  from assms(1) have m: "mset ?zs = mset (successes (map (fetchIP net) services))"
    by (intro mset_successes) (simp add: execution_def)
  from assms(2) obtain u where "u \<in> set services" and "fetchIP net u = (fst (fetchIP net u), None)"
    by (auto simp: prod_eq_iff)
  then have "fst (fetchIP net u) \<in> set (successes (map (fetchIP net) services))"
    unfolding set_successes by blast
  with m have ne: "?zs \<noteq> []" by (metis empty_iff list.set(1) mset_eq_setD)
  have g: "getPublicIP net sched = Some (decide ?zs)"
    using assms(1) by (rule getPublicIP_execution)
  from ne have d: "fst (decide ?zs) = (?zs ! 0, None)" by (simp add: decide_def)
  have 1: "?zs ! 0 = v \<and> snd (decide ?zs) = []"
    if "successes (map (fetchIP net) services) = [v]" for v
  proof -
    from m that have "?zs = [v]" by (simp only: mset_eq_single_list)
    then show ?thesis by (simp add: decide_single)
  qed
  have 2: "?zs ! 0 = v \<and> snd (decide ?zs) = []"
    if "successes (map (fetchIP net) services) = [v, v]" for v
  proof -
    from m that have "?zs = [v, v]" by (simp only: mset_eq_pair_same)
    then show ?thesis by (simp add: decide_same)
  qed
  from g d have "getPublicIP net sched = Some ((?zs ! 0, None), snd (decide ?zs))"
    by (simp add: prod_eq_iff)
  with 1 2 show ?thesis by blast
qed

theorem getPublicIP_some_success_witness:
  "execution in_order \<and> snd (fetchIP only_second (services ! 1)) = None \<and>
   successes (map (fetchIP only_second) services) = [''203.0.113.5''] \<and>
   getPublicIP only_second in_order = Some ((''203.0.113.5'', None), [])"
proof -
  have e: "execution in_order" by code_simp
  have b: "snd (fetchIP only_second (services ! 1)) = None" by code_simp
  have s: "successes (map (fetchIP only_second) services) = [''203.0.113.5'']" by code_simp
  have "services ! 1 \<in> set services" by (simp add: services_def)
  with b have f: "\<exists>u\<in>set services. snd (fetchIP only_second u) = None" by blast
  from getPublicIP_some_success [OF e f] s
  have "getPublicIP only_second in_order = Some ((''203.0.113.5'', None), [])" by auto
  with e b s show ?thesis by blast
qed

text \<open>
  Claim C5: \<open>getPublicIP\<close> decides only after the outcome of every service has
  been received. In every run of the goroutines in which it returns, every
  goroutine has sent exactly once, the collecting loop has received once per
  service, no goroutine is pending and the channel is empty; no proper prefix of
  the run returns; and the returned value is the decision on all outcomes received.
\<close>

theorem getPublicIP_waits_for_all:
  assumes "getPublicIP net sched = Some r"
  shows "mset (sends sched) = mset services \<and> recvs sched = length services \<and>
         (\<exists>s. run net sched spawn = Some s \<and> pending s = [] \<and> results s = [] \<and>
              received s = length services) \<and>
         (\<forall>k<length sched. getPublicIP net (take k sched) = None) \<and>
         r = decide (successes (map (fetchIP net) (sends sched)))"
proof -
  from assms have ex: "execution sched" by (rule getPublicIP_returns_execution)
  from assms obtain s where rn: "run net sched spawn = Some s"
    and rc: "received s = length services"
    by (auto simp: getPublicIP_def split: option.splits if_splits)
  from run_sound [OF rn] rc ex
  have m: "mset (sends sched) + mset (pending s) = mset (sends sched)"
    and l: "length (results s) + recvs sched = length (sends sched)"
    by (simp_all add: spawn_def execution_def)
  from m have p: "pending s = []" by simp
  from l ex length_sends_execution [OF ex] have q: "results s = []"
    by (simp add: execution_def)
  have "getPublicIP net (take k sched) = None" if "k < length sched" for k
  proof (cases "getPublicIP net (take k sched)")
    case None
    then show ?thesis .
  next
    case (Some r')
    then have "execution (take k sched)" by (rule getPublicIP_returns_execution)
    then have "length (take k sched) = length sched"
      using ex by (simp only: length_execution)
    with that show ?thesis by simp
  qed
  moreover from ex assms have "r = decide (successes (map (fetchIP net) (sends sched)))"
    by (simp add: getPublicIP_execution)
  ultimately show ?thesis
    using ex rn rc p q by (auto simp: execution_def)
qed

theorem getPublicIP_waits_for_all_witness:
  "getPublicIP only_second second_first = Some ((''203.0.113.5'', None), []) \<and>
   mset (sends second_first) = mset services \<and> recvs second_first = length services \<and>
   getPublicIP only_second (take 3 second_first) = None"
proof -
  have g: "getPublicIP only_second second_first = Some ((''203.0.113.5'', None), [])"
    by code_simp
  have "(3::nat) < length second_first" by (simp add: second_first_def)
  with getPublicIP_waits_for_all [OF g] g show ?thesis by blast
qed

text \<open>
  Claim C8: an address that \<open>getPublicIP\<close> returns without error is the address
  of a successful fetch of one of the services in the same run: the non-empty
  trimmed body of the response of that service, unchanged.
\<close>

theorem getPublicIP_returns_fetched:
  assumes "getPublicIP net sched = Some ((ip, None), logged)"
  shows "\<exists>u\<in>set services. fetchIP net u = (ip, None) \<and>
           (\<exists>status body. net u = Response status body \<and> ip = TrimSpace body \<and> ip \<noteq> [])"
proof -
  let ?zs = "successes (map (fetchIP net) (sends sched))"
  from assms have ex: "execution sched" by (rule getPublicIP_returns_execution)
  with assms have d: "decide ?zs = ((ip, None), logged)"
    by (simp add: getPublicIP_execution)
  then have "?zs \<noteq> []" and "ip = ?zs ! 0"
    by (auto simp: decide_def split: if_splits)
  then have "ip \<in> set ?zs" by (metis nth_mem length_greater_0_conv)
  then obtain u where u: "u \<in> set (sends sched)" and f: "fetchIP net u = (ip, None)"
    unfolding set_successes by blast
  from ex have "set (sends sched) = set services"
    by (metis execution_def mset_eq_setD)
  with u have "u \<in> set services" by simp
  moreover from f have "\<exists>status body. net u = Response status body \<and> ip = TrimSpace body \<and> ip \<noteq> []"
    by (auto simp: fetchIP_def Let_def split: reply.splits if_splits)
  ultimately show ?thesis using f by blast
qed

theorem getPublicIP_returns_fetched_witness:
  "getPublicIP only_second in_order = Some ((''203.0.113.5'', None), []) \<and>
   (fetchIP only_second (services ! 0) = (''203.0.113.5'', None) \<or>
    fetchIP only_second (services ! 1) = (''203.0.113.5'', None))"
proof -
  have g: "getPublicIP only_second in_order = Some ((''203.0.113.5'', None), [])"
    by code_simp
  have "set services = {services ! 0, services ! 1}" by (simp add: services_def)
  with getPublicIP_returns_fetched [OF g] g show ?thesis by auto
qed

subsection \<open>One fetch\<close>

text \<open>
  Claim C9: for a response whose body was read, \<open>fetchIP\<close> trims the white space
  around the body: the body is white space, then the trimmed text, then white
  space, and the trimmed text neither starts nor ends with white space. When the
  trimmed text is not empty the fetch succeeds with exactly the trimmed text. When
  it is empty the fetch fails and its outcome is excluded from the vote: on every
  execution \<open>getPublicIP\<close> returns the decision on the successful outcomes of the
  other services alone, which is also what it returns when the request to that
  service fails in \<open>Do\<close>.
\<close>

theorem fetchIP_trims_body:
  assumes "net url = Response status body"
  shows "fetchIP net url =
           (if TrimSpace body = [] then ([], Some (''received empty IP address from '' @ url))
            else (TrimSpace body, None)) \<and>
         (\<exists>ls rs. set ls \<subseteq> set space_runes \<and> set rs \<subseteq> set space_runes \<and>
                  body = concat ls @ TrimSpace body @ concat rs) \<and>
         (\<forall>p\<in>set space_runes. \<not> prefix p (TrimSpace body) \<and> \<not> suffix p (TrimSpace body)) \<and>
         (TrimSpace body = [] \<longrightarrow>
            (execution sched \<longrightarrow>
               getPublicIP net sched =
                 Some (decide (successes (map (fetchIP net) (filter (\<lambda>u. u \<noteq> url) (sends sched)))))) \<and>
            getPublicIP net sched = getPublicIP (net(url := DoError e)) sched)"
proof -
  from assms have 1: "fetchIP net url =
           (if TrimSpace body = [] then ([], Some (''received empty IP address from '' @ url))
            else (TrimSpace body, None))"
    by (simp add: fetchIP_def Let_def)
  have 4: "getPublicIP net sched = getPublicIP (net(url := DoError e)) sched"
    if "TrimSpace body = []"
  proof -
    have "successes [fetchIP net u] = successes [fetchIP (net(url := DoError e)) u]" for u
      using 1 that by (cases "u = url") (simp_all add: successes_def fetchIP_def)
    then have "successes (map (fetchIP net) (sends sched)) =
        successes (map (fetchIP (net(url := DoError e))) (sends sched))"
      by (intro successes_cong)
    then show ?thesis by (simp add: getPublicIP_eq)
  qed
  have 5: "getPublicIP net sched =
      Some (decide (successes (map (fetchIP net) (filter (\<lambda>u. u \<noteq> url) (sends sched)))))"
    if "TrimSpace body = []" and "execution sched"
  proof -
    from 1 that(1) have "snd (fetchIP net url) \<noteq> None" by simp
    then have "successes (map (fetchIP net) (sends sched)) =
        successes (map (fetchIP net) (filter (\<lambda>u. u \<noteq> url) (sends sched)))"
      by (rule successes_filter)
    with that(2) show ?thesis by (simp add: getPublicIP_execution)
  qed
  from 1 4 5 TrimSpace_decomp [of body] TrimSpace_no_prefix [of _ body] TrimSpace_no_suffix [of _ body]
  show ?thesis by blast
qed

theorem fetchIP_trims_body_witness:
  "fetchIP (both_agree(''u'' := Response 200 ('' 203.0.113.5'' @ [CHR 0x0D, CHR 0x0A]))) ''u'' =
     (''203.0.113.5'', None) \<and>
   fetchIP empty_first (services ! 0) =
     ([], Some ''received empty IP address from https://checkip.amazonaws.com'') \<and>
   execution second_first \<and>
   getPublicIP empty_first second_first = Some ((''203.0.113.5'', None), [])"
proof -
  have 1: "TrimSpace ('' 203.0.113.5'' @ [CHR 0x0D, CHR 0x0A]) = ''203.0.113.5''"
    by code_simp
  have 2: "TrimSpace ''\<newline>'' = []"
    by code_simp
  have r: "(both_agree(''u'' := Response 200 b)) ''u'' = Response 200 b" for b by simp
  have q: "empty_first (services ! 0) = Response 200 ''\<newline>''"
    by (simp add: empty_first_def services_def)
  have e: "execution second_first" by code_simp
  have d: "decide (successes (map (fetchIP empty_first)
             (filter (\<lambda>u. u \<noteq> services ! 0) (sends second_first)))) =
           ((''203.0.113.5'', None), [])"
    by code_simp
  from fetchIP_trims_body
         [of "both_agree(''u'' := Response 200 ('' 203.0.113.5'' @ [CHR 0x0D, CHR 0x0A]))" "''u''"
             200 "'' 203.0.113.5'' @ [CHR 0x0D, CHR 0x0A]" in_order "[]", OF r]
       1
  have a: "fetchIP (both_agree(''u'' := Response 200 ('' 203.0.113.5'' @ [CHR 0x0D, CHR 0x0A]))) ''u'' =
     (''203.0.113.5'', None)" by simp
  from fetchIP_trims_body [of empty_first "services ! 0" 200 "''\<newline>''" second_first "[]", OF q] 2 e d
  have "fetchIP empty_first (services ! 0) =
          ([], Some (''received empty IP address from '' @ services ! 0))"
    and "getPublicIP empty_first second_first = Some ((''203.0.113.5'', None), [])"
    by simp_all
  with a e show ?thesis by (simp add: services_def)
qed

subsection \<open>Reconciliation\<close>

text \<open>
  Claim C6: when the resolved address equals the content of the first listed
  record, \<open>main\<close> returns without any call that updates a record; its last
  output is the message that the record is already up to date.
\<close>

theorem main_up_to_date:
  assumes "api_NewWithAPIToken api (apiToken cfg) = None"
    and "api_ZoneIDByName api (zoneName cfg) = (zoneID, None)"
    and "getPublicIP net sched = Some ((ip, None), logged)"
    and "api_ListDNSRecords api \<lparr>Level = ZoneRouteLevel, Identifier = zoneID\<rparr>
           \<lparr>list_Name = recordName cfg, list_Type = ''A''\<rparr> = (first # others, info, None)"
    and "Content first = ip"
  shows "\<exists>evs. main cfg api net sched = Some (evs, Return) \<and> filter is_update evs = [] \<and>
           last evs = Printf ''DNS record already up-to-date for %s: %s\<newline>''
                        [S (recordName cfg), S ip]"
proof -
  from getPublicIP_returns_execution [OF assms(3)] assms(3)
  have "logged = snd (decide (successes (map (fetchIP net) (sends sched))))"
    by (simp add: getPublicIP_execution)
  then have "filter is_update logged = []"
    by (simp add: decide_def)
  with assms(5) show ?thesis
    by (simp add: main_resolved [OF assms(1-4)] Let_def)
qed

theorem main_up_to_date_witness:
  "getPublicIP unchanged second_first = Some ((''198.51.100.1'', None), []) \<and>
   Content sample_first = ''198.51.100.1'' \<and>
   main sample_cfg sample_api unchanged second_first =
     Some ([Call (NewWithAPIToken ''token''), Call (ZoneIDByName ''example.com''),
            Println [S ''Your IP address is '', S ''198.51.100.1''],
            Call (ListDNSRecords \<lparr>Level = ZoneRouteLevel, Identifier = ''zone-1''\<rparr>
                    \<lparr>list_Name = ''home.example.com'', list_Type = ''A''\<rparr>),
            Printf ''Total records found: %d\<newline>'' [D 2],
            Printf ''DNS record already up-to-date for %s: %s\<newline>''
              [S ''home.example.com'', S ''198.51.100.1'']],
           Return)"
proof -
  have 1: "api_NewWithAPIToken sample_api (apiToken sample_cfg) = None"
    by (simp add: sample_api_def)
  have 2: "api_ZoneIDByName sample_api (zoneName sample_cfg) = (''zone-1'', None)"
    by (simp add: sample_api_def)
  have 3: "getPublicIP unchanged second_first = Some ((''198.51.100.1'', None), [])"
    by code_simp
  have 4: "api_ListDNSRecords sample_api \<lparr>Level = ZoneRouteLevel, Identifier = ''zone-1''\<rparr>
             \<lparr>list_Name = recordName sample_cfg, list_Type = ''A''\<rparr> =
           (sample_first # [sample_second], \<lparr>Total = 2\<rparr>, None)"
    by (simp add: sample_api_def)
  have 5: "Content sample_first = ''198.51.100.1''" by (simp add: sample_first_def)
  have m: "main sample_cfg sample_api unchanged second_first =
     Some ([Call (NewWithAPIToken ''token''), Call (ZoneIDByName ''example.com''),
            Println [S ''Your IP address is '', S ''198.51.100.1''],
            Call (ListDNSRecords \<lparr>Level = ZoneRouteLevel, Identifier = ''zone-1''\<rparr>
                    \<lparr>list_Name = ''home.example.com'', list_Type = ''A''\<rparr>),
            Printf ''Total records found: %d\<newline>'' [D 2],
            Printf ''DNS record already up-to-date for %s: %s\<newline>''
              [S ''home.example.com'', S ''198.51.100.1'']],
           Return)"
    by code_simp
  from main_up_to_date [OF 1 2 3 4 5] 3 5 m show ?thesis by blast
qed

text \<open>
  Claim C7: when the resolved address differs from the content of the first listed
  record, the run makes exactly one call that updates a record; the call carries
  the type, the name, the TTL and the proxied flag of that record and the resolved
  address as content.
\<close>

theorem main_update:
  assumes "api_NewWithAPIToken api (apiToken cfg) = None"
    and "api_ZoneIDByName api (zoneName cfg) = (zoneID, None)"
    and "getPublicIP net sched = Some ((ip, None), logged)"
    and "api_ListDNSRecords api \<lparr>Level = ZoneRouteLevel, Identifier = zoneID\<rparr>
           \<lparr>list_Name = recordName cfg, list_Type = ''A''\<rparr> = (first # others, info, None)"
    and "Content first \<noteq> ip"
  shows "\<exists>evs ex. main cfg api net sched = Some (evs, ex) \<and>
           filter is_update evs =
             [Call (UpdateDNSRecord \<lparr>Level = ZoneRouteLevel, Identifier = zoneID\<rparr>
                \<lparr>upd_Type = Type first, upd_Name = Name first, upd_Content = ip,
                 upd_TTL = TTL first, upd_Proxied = Proxied first\<rparr>)]"
proof -
  from getPublicIP_returns_execution [OF assms(3)] assms(3)
  have "logged = snd (decide (successes (map (fetchIP net) (sends sched))))"
    by (simp add: getPublicIP_execution)
  then have "filter is_update logged = []"
    by (simp add: decide_def)
  with assms(5) show ?thesis
    by (simp add: main_resolved [OF assms(1-4)] Let_def split: option.splits)
qed

theorem main_update_witness:
  "getPublicIP both_agree in_order = Some ((''203.0.113.5'', None), []) \<and>
   Content sample_first = ''198.51.100.1'' \<and>
   main sample_cfg sample_api both_agree in_order =
     Some ([Call (NewWithAPIToken ''token''), Call (ZoneIDByName ''example.com''),
            Println [S ''Your IP address is '', S ''203.0.113.5''],
            Call (ListDNSRecords \<lparr>Level = ZoneRouteLevel, Identifier = ''zone-1''\<rparr>
                    \<lparr>list_Name = ''home.example.com'', list_Type = ''A''\<rparr>),
            Printf ''Total records found: %d\<newline>'' [D 2],
            Call (UpdateDNSRecord \<lparr>Level = ZoneRouteLevel, Identifier = ''zone-1''\<rparr>
                    \<lparr>upd_Type = ''A'', upd_Name = ''home.example.com'',
                     upd_Content = ''203.0.113.5'', upd_TTL = 300,
                     upd_Proxied = Some False\<rparr>),
            Printf ''Successfully updated DNS record for %s to %s\<newline>''
              [S ''home.example.com'', S ''203.0.113.5''],
            Printf ''Successfully updated DNS record for %s to %s\<newline>''
              [S ''home.example.com'', S ''203.0.113.5'']],
           Return)"
proof -
  have 1: "api_NewWithAPIToken sample_api (apiToken sample_cfg) = None"
    by (simp add: sample_api_def)
  have 2: "api_ZoneIDByName sample_api (zoneName sample_cfg) = (''zone-1'', None)"
    by (simp add: sample_api_def)
  have 3: "getPublicIP both_agree in_order = Some ((''203.0.113.5'', None), [])"
    by code_simp
  have 4: "api_ListDNSRecords sample_api \<lparr>Level = ZoneRouteLevel, Identifier = ''zone-1''\<rparr>
             \<lparr>list_Name = recordName sample_cfg, list_Type = ''A''\<rparr> =
           (sample_first # [sample_second], \<lparr>Total = 2\<rparr>, None)"
    by (simp add: sample_api_def)
  have 5: "Content sample_first = ''198.51.100.1''" by (simp add: sample_first_def)
  then have 6: "Content sample_first \<noteq> ''203.0.113.5''" by simp
  have m: "main sample_cfg sample_api both_agree in_order =
     Some ([Call (NewWithAPIToken ''token''), Call (ZoneIDByName ''example.com''),
            Println [S ''Your IP address is '', S ''203.0.113.5''],
            Call (ListDNSRecords \<lparr>Level = ZoneRouteLevel, Identifier = ''zone-1''\<rparr>
                    \<lparr>list_Name = ''home.example.com'', list_Type = ''A''\<rparr>),
            Printf ''Total records found: %d\<newline>'' [D 2],
            Call (UpdateDNSRecord \<lparr>Level = ZoneRouteLevel, Identifier = ''zone-1''\<rparr>
                    \<lparr>upd_Type = ''A'', upd_Name = ''home.example.com'',
                     upd_Content = ''203.0.113.5'', upd_TTL = 300,
                     upd_Proxied = Some False\<rparr>),
            Printf ''Successfully updated DNS record for %s to %s\<newline>''
              [S ''home.example.com'', S ''203.0.113.5''],
            Printf ''Successfully updated DNS record for %s to %s\<newline>''
              [S ''home.example.com'', S ''203.0.113.5'']],
           Return)"
    by code_simp
  from main_update [OF 1 2 3 4 6] 3 5 m show ?thesis by blast
qed

text \<open>
  Claim C10: when the listing returns more than one record, only the first one
  counts. The run is the run of the same program against a listing that holds the
  first record alone; it makes no call that updates a record when the content of
  the first record equals the resolved address, and otherwise exactly one, built
  from the first record.
\<close>

theorem main_compares_first_record:
  assumes "api_NewWithAPIToken api (apiToken cfg) = None"
    and "api_ZoneIDByName api (zoneName cfg) = (zoneID, None)"
    and "getPublicIP net sched = Some ((ip, None), logged)"
    and "api_ListDNSRecords api \<lparr>Level = ZoneRouteLevel, Identifier = zoneID\<rparr>
           \<lparr>list_Name = recordName cfg, list_Type = ''A''\<rparr> =
         (first # second # others, info, None)"
  shows "main cfg api net sched =
           main cfg (api\<lparr>api_ListDNSRecords := \<lambda>zone params. ([first], info, None)\<rparr>) net sched \<and>
         (\<exists>evs ex. main cfg api net sched = Some (evs, ex) \<and>
            filter is_update evs =
              (if Content first = ip then []
               else [Call (UpdateDNSRecord \<lparr>Level = ZoneRouteLevel, Identifier = zoneID\<rparr>
                       \<lparr>upd_Type = Type first, upd_Name = Name first, upd_Content = ip,
                        upd_TTL = TTL first, upd_Proxied = Proxied first\<rparr>)]))"
proof -
  let ?api = "api\<lparr>api_ListDNSRecords := \<lambda>zone params. ([first], info, None)\<rparr>"
  have 1: "api_NewWithAPIToken ?api (apiToken cfg) = None"
    using assms(1) by simp
  have 2: "api_ZoneIDByName ?api (zoneName cfg) = (zoneID, None)"
    using assms(2) by simp
  have 4: "api_ListDNSRecords ?api \<lparr>Level = ZoneRouteLevel, Identifier = zoneID\<rparr>
           \<lparr>list_Name = recordName cfg, list_Type = ''A''\<rparr> = (first # [], info, None)"
    by simp
  have "main cfg api net sched = main cfg ?api net sched"
    by (simp add: main_resolved [OF assms] main_resolved [OF 1 2 assms(3) 4] Let_def)
  moreover
  from getPublicIP_returns_execution [OF assms(3)] assms(3)
  have "logged = snd (decide (successes (map (fetchIP net) (sends sched))))"
    by (simp add: getPublicIP_execution)
  then have "filter is_update logged = []"
    by (simp add: decide_def)
  then have "\<exists>evs ex. main cfg api net sched = Some (evs, ex) \<and>
            filter is_update evs =
              (if Content first = ip then []
               else [Call (UpdateDNSRecord \<lparr>Level = ZoneRouteLevel, Identifier = zoneID\<rparr>
                       \<lparr>upd_Type = Type first, upd_Name = Name first, upd_Content = ip,
                        upd_TTL = TTL first, upd_Proxied = Proxied first\<rparr>)])"
    by (simp add: main_resolved [OF assms] Let_def split: option.splits)
  ultimately show ?thesis by blast
qed

theorem main_compares_first_record_witness:
  "main sample_cfg sample_api disagreeing second_first =
   main sample_cfg
     (sample_api\<lparr>api_ListDNSRecords := \<lambda>zone params. ([sample_first], \<lparr>Total = 2\<rparr>, None)\<rparr>)
     disagreeing second_first"
proof -
  have 1: "api_NewWithAPIToken sample_api (apiToken sample_cfg) = None"
    by (simp add: sample_api_def)
  have 2: "api_ZoneIDByName sample_api (zoneName sample_cfg) = (''zone-1'', None)"
    by (simp add: sample_api_def)
  have 3: "getPublicIP disagreeing second_first =
      Some ((''203.0.113.9'', None),
        [LogPrintf ''Warning: IP mismatch between services: %s vs %s. Using %s''
           [S ''203.0.113.9'', S ''203.0.113.5'', S ''203.0.113.9'']])"
    by code_simp
  have 4: "api_ListDNSRecords sample_api \<lparr>Level = ZoneRouteLevel, Identifier = ''zone-1''\<rparr>
             \<lparr>list_Name = recordName sample_cfg, list_Type = ''A''\<rparr> =
           (sample_first # sample_second # [], \<lparr>Total = 2\<rparr>, None)"
    by (simp add: sample_api_def)
  from main_compares_first_record [OF 1 2 3 4] show ?thesis by blast
qed

end
